theory Spec2Isabelle
  imports Main "HOL-Library.Sublist"
begin

section \<open>The shared state of the orchestrator\<close>

text \<open>
  The program is \<^verbatim>\<open>src/agents/orchestrator/main_orchestrator.py\<close>. Every node of
  its workflow is a Python function that receives the \<^verbatim>\<open>AgentState\<close> dictionary,
  mutates it in place and returns it. The model passes the state explicitly: a node
  takes the state and returns the updated state.

  Python values are modelled as follows.
  \<^item> A string is a \<open>string\<close>; a list is a list.
  \<^item> A dictionary of strings (one found source, one verified link) is an association
    list; \<^verbatim>\<open>"url" in source\<close> is \<open>map_of source ''url'' \<noteq> None\<close>.
  \<^item> A value that came out of \<^verbatim>\<open>json.loads\<close> is a \<open>json\<close>; Python's \<^verbatim>\<open>None\<close>
    is \<open>JNull\<close> there. A field declared \<^verbatim>\<open>Optional[dict]\<close> holds a \<open>json\<close>.
  \<^item> A field declared \<^verbatim>\<open>Optional[str]\<close> is a \<open>string option\<close>. The keys
    \<^verbatim>\<open>structure\<close> and \<^verbatim>\<open>translations\<close> are the fields \<open>structure'\<close> and
    \<open>translations'\<close> (the plain names are reserved words).
  \<^item> The keys that the code reads with \<^verbatim>\<open>state.get(key, default)\<close> may be missing
    from the dictionary: such a field is an \<open>entry\<close>, \<open>Absent\<close> or \<open>Present v\<close>. The keys
    read with \<^verbatim>\<open>state[key]\<close> are always there (the TypedDict declares them, and
    \<^verbatim>\<open>run_orchestrator\<close> creates all of them).
\<close>

datatype json =
    JNull
  | JBool bool
  | JNum string
  | JStr string
  | JArr "json list"
  | JObj "(string \<times> json) list"

type_synonym pydict = "(string \<times> string) list"

datatype 'a entry = Absent | Present 'a

text \<open>\<^verbatim>\<open>d.get(key, default)\<close>: the default is used only when the key is missing.\<close>

fun get_or :: "'a entry \<Rightarrow> 'a \<Rightarrow> 'a" where
  "get_or Absent d = d"
| "get_or (Present v) d = v"

record AgentState =
  task_id :: string
  task_type :: string
  user_input :: string
  current_agent :: string
  sources_found :: "pydict list entry"
  citations :: "pydict list"
  hebrew_content :: "string option"
  english_content :: "string option entry"
  structure' :: json
  verified_links :: "pydict list entry"
  broken_links :: "string list"
  translations' :: json
  current_events_mapped :: "json entry"
  rebbe_prophecies :: json
  messages :: "string list"
  completed_agents :: "string list"
  errors :: "string list"
  final_output :: "string option"

text \<open>What a node can raise. The first is Python's; the second stands for any
  exception of the text-completion client or of \<^verbatim>\<open>json.loads\<close> on its reply.\<close>

datatype error = KeyError string | CollaboratorError string

section \<open>The router\<close>

text \<open>\<^verbatim>\<open>orchestrator_node\<close>, lines 59 to 99. The chain of \<^verbatim>\<open>if\<close>/\<^verbatim>\<open>elif\<close> has no
  final \<^verbatim>\<open>else\<close>: for any other task type only the message is appended.\<close>

definition orchestrator_node :: "AgentState \<Rightarrow> AgentState" where
  "orchestrator_node state0 =
    (let tt = task_type state0;
         completed = completed_agents state0;
         state = state0\<lparr>messages := messages state0 @ [''[ORCHESTRATOR] Starting task: '' @ tt]\<rparr>
     in
       if tt = ''farbrengen'' then
         (if ''research'' \<notin> set completed then state\<lparr>current_agent := ''research''\<rparr>
          else if ''context'' \<notin> set completed then state\<lparr>current_agent := ''context''\<rparr>
          else if ''content'' \<notin> set completed then state\<lparr>current_agent := ''content''\<rparr>
          else if ''links'' \<notin> set completed then state\<lparr>current_agent := ''links''\<rparr>
          else state\<lparr>current_agent := ''complete''\<rparr>)
       else if tt = ''source_lookup'' then
         (if ''research'' \<notin> set completed then state\<lparr>current_agent := ''research''\<rparr>
          else if ''links'' \<notin> set completed then state\<lparr>current_agent := ''links''\<rparr>
          else state\<lparr>current_agent := ''complete''\<rparr>)
       else if tt = ''dvar_torah'' then
         (if ''research'' \<notin> set completed then state\<lparr>current_agent := ''research''\<rparr>
          else if ''content'' \<notin> set completed then state\<lparr>current_agent := ''content''\<rparr>
          else if ''translation'' \<notin> set completed then state\<lparr>current_agent := ''translation''\<rparr>
          else state\<lparr>current_agent := ''complete''\<rparr>)
       else state)"

text \<open>\<^verbatim>\<open>END\<close> is LangGraph's constant, the string \<^verbatim>\<open>"__end__"\<close>.\<close>

definition END :: string where
  "END = ''__end__''"

text \<open>\<^verbatim>\<open>should_continue\<close>, lines 308 to 317.\<close>

definition should_continue :: "AgentState \<Rightarrow> string" where
  "should_continue state =
    (let current = current_agent state
     in if current = ''done'' then END
        else if current = ''complete'' then ''completion''
        else current)"

text \<open>The task checklist of the specification: for each routed task type, the step
  names in the order in which its branch of \<^verbatim>\<open>orchestrator_node\<close> tests them. The
  code has no such table; this one is what the router is compared with.\<close>

definition required_steps :: "string \<Rightarrow> string list option" where
  "required_steps tt =
    (if tt = ''farbrengen'' then Some [''research'', ''context'', ''content'', ''links'']
     else if tt = ''source_lookup'' then Some [''research'', ''links'']
     else if tt = ''dvar_torah'' then Some [''research'', ''content'', ''translation'']
     else None)"

text \<open>The router of the specification: the first entry of the checklist that is not
  among the completed steps, or the terminal marker.\<close>

definition next_step :: "string list \<Rightarrow> string list \<Rightarrow> string" where
  "next_step checklist completed =
    (case find (\<lambda>a. a \<notin> set completed) checklist of
       None \<Rightarrow> ''complete''
     | Some a \<Rightarrow> a)"

section \<open>The step executors\<close>

text \<open>Python's \<^verbatim>\<open>str\<close> of a natural number (the \<^verbatim>\<open>len\<close> inside an f-string).\<close>

fun str_nat :: "nat \<Rightarrow> string" where
  "str_nat n =
    (if n < 10 then [''0123456789'' ! n]
     else str_nat (n div 10) @ [''0123456789'' ! (n mod 10)])"

declare str_nat.simps [simp del]

text \<open>\<^verbatim>\<open>sep.join(xs)\<close>.\<close>

fun join :: "string \<Rightarrow> string list \<Rightarrow> string" where
  "join sep [] = []"
| "join sep [x] = x"
| "join sep (x # y # ys) = x @ sep @ join sep (y # ys)"

text \<open>
  What lies outside the program is a parameter of the model, one record per
  invocation of a node:
  \<^item> \<open>research_plan\<close>, \<open>context_data\<close>: the call of the text-completion client in
    \<^verbatim>\<open>research_agent_node\<close> and in \<^verbatim>\<open>context_enrichment_node\<close>, followed by
    \<^verbatim>\<open>json.loads\<close> on the reply; a function of the text that the prompt interpolates
    (the user's input). \<open>Inl\<close> when the client or the parser raises.
  \<^item> \<open>content_text\<close>: the call in \<^verbatim>\<open>content_generation_node\<close>; a function of the
    four values that the prompt interpolates.
  \<^item> \<open>utcnow\<close>: the \<open>k\<close>-th reading of \<^verbatim>\<open>datetime.utcnow().isoformat()\<close> within the
    invocation.
  \<^item> \<open>json_dumps\<close>: \<^verbatim>\<open>json.dumps(_, indent=2)\<close> on the assembled dictionary.
\<close>

record final_dict =
  out_task_type :: string
  out_sources :: "pydict list"
  out_content :: "string option"
  out_verified_links :: "pydict list"
  out_context :: json
  out_generated_at :: string

record world =
  research_plan :: "string \<Rightarrow> error + json"
  context_data :: "string \<Rightarrow> error + json"
  content_text :: "string \<Rightarrow> string \<Rightarrow> string \<Rightarrow> json \<Rightarrow> error + string"
  utcnow :: "nat \<Rightarrow> string"
  json_dumps :: "final_dict \<Rightarrow> string"

text \<open>The one source that \<^verbatim>\<open>research_agent_node\<close> stores, lines 139 to 145.\<close>

definition sicha_source :: pydict where
  "sicha_source =
    [(''type'', ''sicha''),
     (''citation'', ''Sichos Kodesh 5747, Behar-Bechukosai''),
     (''topic'', ''Shleimus HaAretz''),
     (''url'', ''https://www.chabad.org/therebbe/article_cdo/aid/4463154''),
     (''page'', ''478-482'')]"

text \<open>\<^verbatim>\<open>research_agent_node\<close>, lines 102 to 152. The parsed plan is not used.\<close>

definition research_agent_node :: "world \<Rightarrow> AgentState \<Rightarrow> error + AgentState" where
  "research_agent_node w state =
    (let user_query = user_input state
     in case research_plan w user_query of
          Inl e \<Rightarrow> Inl e
        | Inr plan \<Rightarrow>
            (let found = [sicha_source]
             in Inr (state\<lparr>
                  sources_found := Present found,
                  messages := messages state @
                    [''[RESEARCH AGENT] Starting source search...'',
                     ''[RESEARCH AGENT] Found '' @ str_nat (length found) @ '' sources''],
                  completed_agents := completed_agents state @ [''research'']\<rparr>)))"

text \<open>One line of the prompt of \<^verbatim>\<open>content_generation_node\<close>, lines 166 to 169:
  \<^verbatim>\<open>s['citation']\<close> raises on a source without that key, \<^verbatim>\<open>s.get('topic', '')\<close>
  does not.\<close>

definition source_line :: "pydict \<Rightarrow> error + string" where
  "source_line s =
    (case map_of s ''citation'' of
       None \<Rightarrow> Inl (KeyError ''citation'')
     | Some c \<Rightarrow>
         Inr (''- '' @ c @ '': '' @ (case map_of s ''topic'' of None \<Rightarrow> [] | Some t \<Rightarrow> t)))"

fun source_lines :: "pydict list \<Rightarrow> error + string list" where
  "source_lines [] = Inr []"
| "source_lines (s # ss) =
    (case source_line s of
       Inl e \<Rightarrow> Inl e
     | Inr l \<Rightarrow> (case source_lines ss of Inl e \<Rightarrow> Inl e | Inr ls \<Rightarrow> Inr (l # ls)))"

text \<open>\<^verbatim>\<open>content_generation_node\<close>, lines 155 to 197.\<close>

definition content_generation_node :: "world \<Rightarrow> AgentState \<Rightarrow> error + AgentState" where
  "content_generation_node w state =
    (let sources = get_or (sources_found state) [];
         context = get_or (current_events_mapped state) (JObj []);
         tt = task_type state
     in case source_lines sources of
          Inl e \<Rightarrow> Inl e
        | Inr ls \<Rightarrow>
            (let sources_text = join [CHR 0x0A] ls
             in case content_text w tt sources_text (user_input state) context of
                  Inl e \<Rightarrow> Inl e
                | Inr text \<Rightarrow>
                    Inr (state\<lparr>
                      english_content := Present (Some text),
                      messages := messages state @
                        [''[CONTENT AGENT] Generating content...'',
                         ''[CONTENT AGENT] Content generated successfully''],
                      completed_agents := completed_agents state @ [''content'']\<rparr>)))"

text \<open>\<^verbatim>\<open>link_verification_node\<close>, lines 200 to 223. Nothing is tested: every URL
  is recorded as active.\<close>

definition verified_link :: "world \<Rightarrow> nat \<times> string \<Rightarrow> pydict" where
  "verified_link w ku =
    [(''url'', snd ku), (''status'', ''ACTIVE''), (''checked_at'', utcnow w (fst ku))]"

definition link_verification_node :: "world \<Rightarrow> AgentState \<Rightarrow> error + AgentState" where
  "link_verification_node w state =
    (let urls_to_check = List.map_filter (\<lambda>source. map_of source ''url'')
           (get_or (sources_found state) [])
     in Inr (state\<lparr>
          verified_links := Present (map (verified_link w) (enumerate 0 urls_to_check)),
          broken_links := [],
          messages := messages state @
            [''[LINK VERIFICATION AGENT] Checking URLs...'',
             ''[LINK VERIFICATION] Verified '' @ str_nat (length urls_to_check) @ '' links''],
          completed_agents := completed_agents state @ [''links'']\<rparr>))"

text \<open>\<^verbatim>\<open>context_enrichment_node\<close>, lines 226 to 261.\<close>

definition context_enrichment_node :: "world \<Rightarrow> AgentState \<Rightarrow> error + AgentState" where
  "context_enrichment_node w state =
    (case context_data w (user_input state) of
       Inl e \<Rightarrow> Inl e
     | Inr parsed \<Rightarrow>
         Inr (state\<lparr>
           current_events_mapped := Present parsed,
           messages := messages state @
             [''[CONTEXT AGENT] Mapping current events...'',
              ''[CONTEXT AGENT] Events mapped successfully''],
           completed_agents := completed_agents state @ [''context'']\<rparr>))"

text \<open>\<^verbatim>\<open>translation_node\<close>, lines 264 to 280.\<close>

definition translation_node :: "world \<Rightarrow> AgentState \<Rightarrow> error + AgentState" where
  "translation_node w state =
    Inr (state\<lparr>
      translations' := JObj
        [(''hebrew_to_english'', JObj []),
         (''english_to_hebrew'', JObj []),
         (''chassidic_terms'',
            JArr [JStr ''shleimus'', JStr ''farbrengen'', JStr ''sicha'', JStr ''igros kodesh''])],
      completed_agents := completed_agents state @ [''translation''],
      messages := messages state @
        [''[TRANSLATION AGENT] Processing translations...'',
         ''[TRANSLATION AGENT] Translations complete'']\<rparr>)"

section \<open>The completion assembler\<close>

text \<open>The dictionary built at lines 290 to 297. A key that is present is taken as
  it is, also when its value is \<^verbatim>\<open>None\<close>.\<close>

definition assembled :: "string \<Rightarrow> AgentState \<Rightarrow> final_dict" where
  "assembled now state =
    \<lparr>out_task_type = task_type state,
     out_sources = get_or (sources_found state) [],
     out_content = get_or (english_content state) (Some []),
     out_verified_links = get_or (verified_links state) [],
     out_context = get_or (current_events_mapped state) (JObj []),
     out_generated_at = now\<rparr>"

text \<open>\<^verbatim>\<open>completion_node\<close>, lines 283 to 302.\<close>

definition completion_node :: "world \<Rightarrow> AgentState \<Rightarrow> error + AgentState" where
  "completion_node w state =
    Inr (state\<lparr>
      messages := messages state @ [''[COMPLETION] Assembling final output...''],
      final_output := Some (json_dumps w (assembled (utcnow w 0) state)),
      current_agent := ''done''\<rparr>)"

section \<open>The workflow graph\<close>

text \<open>\<^verbatim>\<open>create_workflow\<close>, lines 323 to 363: the table of nodes, the conditional
  edges out of the router, the fixed edges.\<close>

definition node_fun :: "world \<Rightarrow> string \<Rightarrow> (AgentState \<Rightarrow> error + AgentState) option" where
  "node_fun w name =
    map_of
      [(''orchestrator'', \<lambda>state. Inr (orchestrator_node state)),
       (''research'', research_agent_node w),
       (''content'', content_generation_node w),
       (''links'', link_verification_node w),
       (''context'', context_enrichment_node w),
       (''translation'', translation_node w),
       (''completion'', completion_node w)] name"

definition conditional_edges :: "string \<Rightarrow> string option" where
  "conditional_edges label =
    map_of
      [(''research'', ''research''),
       (''content'', ''content''),
       (''links'', ''links''),
       (''context'', ''context''),
       (''translation'', ''translation''),
       (''completion'', ''completion''),
       (END, END)] label"

definition agents :: "string list" where
  "agents = [''research'', ''content'', ''links'', ''context'', ''translation'']"

text \<open>One invocation of a node by its name.\<close>

definition invoke :: "world \<Rightarrow> string \<Rightarrow> AgentState \<Rightarrow> error + AgentState" where
  "invoke w name state =
    (case node_fun w name of
       None \<Rightarrow> Inl (KeyError name)
     | Some f \<Rightarrow> f state)"

text \<open>The node that follows \<open>name\<close>, given the state that \<open>name\<close> returned. A label of
  \<^verbatim>\<open>should_continue\<close> that the conditional edges do not list has no destination.\<close>

definition next_node :: "string \<Rightarrow> AgentState \<Rightarrow> error + string" where
  "next_node name state =
    (if name = ''orchestrator'' then
       (case conditional_edges (should_continue state) of
          None \<Rightarrow> Inl (KeyError (should_continue state))
        | Some dest \<Rightarrow> Inr dest)
     else if name \<in> set agents then Inr ''orchestrator''
     else if name = ''completion'' then Inr END
     else Inl (KeyError name))"

text \<open>The driver loop is LangGraph's; the program only declares the graph. It is
  modelled as: run the node, follow its edge, until \<^verbatim>\<open>END\<close>. The fuel bounds the
  number of nodes run (\<open>None\<close>: the fuel ran out), \<open>i\<close> counts them, \<open>ws i\<close> is the
  outside world at the \<open>i\<close>-th of them. The result is the list of the nodes run, and
  the final state or the exception that ended the run.\<close>

fun run_from ::
  "(nat \<Rightarrow> world) \<Rightarrow> nat \<Rightarrow> nat \<Rightarrow> string \<Rightarrow> AgentState \<Rightarrow> (string list \<times> (error + AgentState)) option"
where
  "run_from ws 0 i name state = (if name = END then Some ([], Inr state) else None)"
| "run_from ws (Suc fuel) i name state =
    (if name = END then Some ([], Inr state)
     else
       (case invoke (ws i) name state of
          Inl e \<Rightarrow> Some ([name], Inl e)
        | Inr state' \<Rightarrow>
            (case next_node name state' of
               Inl e \<Rightarrow> Some ([name], Inl e)
             | Inr name' \<Rightarrow>
                 (case run_from ws fuel (Suc i) name' state' of
                    None \<Rightarrow> None
                  | Some (trace, result) \<Rightarrow> Some (name # trace, result)))))"

text \<open>The initial state of \<^verbatim>\<open>run_orchestrator\<close>, lines 383 to 402; \<open>stamp\<close> is the text
  of \<^verbatim>\<open>datetime.utcnow().timestamp()\<close>.\<close>

definition initial_state :: "string \<Rightarrow> string \<Rightarrow> string \<Rightarrow> AgentState" where
  "initial_state stamp tt input =
    \<lparr>task_id = tt @ ''_'' @ stamp,
     task_type = tt,
     user_input = input,
     current_agent = ''orchestrator'',
     sources_found = Present [],
     citations = [],
     hebrew_content = None,
     english_content = Present None,
     structure' = JNull,
     verified_links = Present [],
     broken_links = [],
     translations' = JNull,
     current_events_mapped = Present JNull,
     rebbe_prophecies = JNull,
     messages = [],
     completed_agents = [],
     errors = [],
     final_output = None\<rparr>"

text \<open>The workflow run: entry point \<^verbatim>\<open>orchestrator\<close>.\<close>

definition run_workflow ::
  "(nat \<Rightarrow> world) \<Rightarrow> nat \<Rightarrow> AgentState \<Rightarrow> (string list \<times> (error + AgentState)) option"
where
  "run_workflow ws fuel state = run_from ws fuel 0 ''orchestrator'' state"

section \<open>Sequences of invocations, reachable configurations\<close>

text \<open>Any sequence of invocations, each with its own outside world; the first
  exception ends it.\<close>

fun invoke_all :: "(world \<times> string) list \<Rightarrow> AgentState \<Rightarrow> error + AgentState" where
  "invoke_all [] state = Inr state"
| "invoke_all (c # cs) state =
    (case invoke (fst c) (snd c) state of
       Inl e \<Rightarrow> Inl e
     | Inr state' \<Rightarrow> invoke_all cs state')"

text \<open>The configurations of a run of the workflow: the node about to run and the
  state it will receive. A run starts at the router with the initial state of
  \<^verbatim>\<open>run_orchestrator\<close>; a node that returns hands its state to the node its edge
  leads to. The parameter \<open>ok\<close> says which outside worlds are considered.\<close>

inductive config :: "(world \<Rightarrow> bool) \<Rightarrow> string \<Rightarrow> AgentState \<Rightarrow> bool"
  for ok :: "world \<Rightarrow> bool"
where
  start: "config ok ''orchestrator'' (initial_state stamp tt input)"
| step: "config ok name state \<Longrightarrow> ok w \<Longrightarrow> invoke w name state = Inr state' \<Longrightarrow>
         next_node name state' = Inr name' \<Longrightarrow> config ok name' state'"

text \<open>The output field that each step owns, and what it means that it has been
  populated (a missing key counts as not populated).\<close>

definition populated :: "string \<Rightarrow> AgentState \<Rightarrow> bool" where
  "populated step state =
    (if step = ''research'' then get_or (sources_found state) [] \<noteq> []
     else if step = ''content'' then get_or (english_content state) None \<noteq> None
     else if step = ''links'' then get_or (verified_links state) [] \<noteq> []
     else if step = ''context'' then get_or (current_events_mapped state) JNull \<noteq> JNull
     else if step = ''translation'' then translations' state \<noteq> JNull
     else False)"

definition any_world :: "world \<Rightarrow> bool" where
  "any_world w = True"

text \<open>The worlds in which the reply to the context prompt never parses to \<^verbatim>\<open>null\<close>.\<close>

definition context_not_null :: "world \<Rightarrow> bool" where
  "context_not_null w = (\<forall>q. context_data w q \<noteq> Inr JNull)"

section \<open>Sample inputs\<close>

text \<open>An outside world in which every call succeeds, and one in which the reply to
  the context prompt is the text \<^verbatim>\<open>null\<close>.\<close>

definition sample_world :: world where
  "sample_world =
    \<lparr>research_plan = (\<lambda>q. Inr (JObj [(''search_terms'', JArr [JStr q])])),
     context_data = (\<lambda>q. Inr (JObj [(''current_events'', JArr [])])),
     content_text = (\<lambda>tt sources_text input context. Inr (''Opening: '' @ input)),
     utcnow = (\<lambda>k. ''2025-12-14T10:00:00''),
     json_dumps = (\<lambda>d. out_task_type d @ '' '' @ out_generated_at d)\<rparr>"

definition null_world :: world where
  "null_world = sample_world\<lparr>context_data := (\<lambda>q. Inr JNull)\<rparr>"

text \<open>The state of a \<^verbatim>\<open>farbrengen\<close> run after the research step and the context step,
  when the reply to the context prompt was \<^verbatim>\<open>null\<close>.\<close>

definition null_context_state :: AgentState where
  "null_context_state =
    \<lparr>task_id = ''farbrengen_0'',
     task_type = ''farbrengen'',
     user_input = ''q'',
     current_agent = ''context'',
     sources_found = Present [sicha_source],
     citations = [],
     hebrew_content = None,
     english_content = Present None,
     structure' = JNull,
     verified_links = Present [],
     broken_links = [],
     translations' = JNull,
     current_events_mapped = Present JNull,
     rebbe_prophecies = JNull,
     messages =
       [''[ORCHESTRATOR] Starting task: farbrengen'',
        ''[RESEARCH AGENT] Starting source search...'',
        ''[RESEARCH AGENT] Found 1 sources'',
        ''[ORCHESTRATOR] Starting task: farbrengen'',
        ''[CONTEXT AGENT] Mapping current events...'',
        ''[CONTEXT AGENT] Events mapped successfully''],
     completed_agents = [''research'', ''context''],
     errors = [],
     final_output = None\<rparr>"

text \<open>The state after the research step alone, from the initial state.\<close>

definition research_only_state :: "string \<Rightarrow> string \<Rightarrow> string \<Rightarrow> AgentState" where
  "research_only_state stamp tt input =
    (initial_state stamp tt input)\<lparr>
      sources_found := Present [sicha_source],
      messages :=
        [''[RESEARCH AGENT] Starting source search...'',
         ''[RESEARCH AGENT] Found 1 sources''],
      completed_agents := [''research'']\<rparr>"

text \<open>A \<^verbatim>\<open>farbrengen\<close> state in which the content step is marked as completed before
  the context step has run.\<close>

definition preset_state :: AgentState where
  "preset_state =
    (initial_state ''0'' ''farbrengen'' ''q'')\<lparr>completed_agents := [''content'', ''research'']\<rparr>"

text \<open>The state of a \<^verbatim>\<open>farbrengen\<close> run after the router and the research step.\<close>

definition after_research_state :: AgentState where
  "after_research_state =
    (initial_state ''0'' ''farbrengen'' ''q'')\<lparr>
      current_agent := ''research'',
      sources_found := Present [sicha_source],
      messages :=
        [''[ORCHESTRATOR] Starting task: farbrengen'',
         ''[RESEARCH AGENT] Starting source search...'',
         ''[RESEARCH AGENT] Found 1 sources''],
      completed_agents := [''research'']\<rparr>"

section \<open>An invariant of the runs\<close>

text \<open>What holds of the state at every configuration of a run: each output field is
  there, and holds a value exactly when its step is among the completed ones.\<close>

definition outputs_match :: "AgentState \<Rightarrow> bool" where
  "outputs_match s =
    (let c = set (completed_agents s) in
     distinct (completed_agents s) \<and>
     sources_found s = Present (if ''research'' \<in> c then [sicha_source] else []) \<and>
     (\<exists>e. english_content s = Present e \<and> (e \<noteq> None) = (''content'' \<in> c)) \<and>
     (\<exists>l. verified_links s = Present l \<and> (l \<noteq> []) = (''links'' \<in> c)) \<and>
     (\<exists>j. current_events_mapped s = Present j \<and> (j \<noteq> JNull) = (''context'' \<in> c)) \<and>
     (translations' s \<noteq> JNull) = (''translation'' \<in> c))"

text \<open>What holds, in addition, of the node about to run: a step executor runs only
  on a routed task type, for a step not yet completed, and the link verifier only after
  the research step; the router of another task type sees the label of the initial
  state.\<close>

definition run_invariant :: "string \<Rightarrow> AgentState \<Rightarrow> bool" where
  "run_invariant name s =
    (outputs_match s \<and>
     (if name = ''orchestrator'' then
        required_steps (task_type s) = None \<longrightarrow> current_agent s = ''orchestrator''
      else if name \<in> set agents then
        required_steps (task_type s) \<noteq> None \<and>
        name \<notin> set (completed_agents s) \<and>
        (name = ''links'' \<longrightarrow> ''research'' \<in> set (completed_agents s))
      else name = ''completion'' \<or> name = END))"

section \<open>Facts about the router and the graph\<close>

lemma known_cases:
  "required_steps tt = Some cl \<Longrightarrow>
     (tt = ''farbrengen'' \<and> cl = [''research'', ''context'', ''content'', ''links'']) \<or>
     (tt = ''source_lookup'' \<and> cl = [''research'', ''links'']) \<or>
     (tt = ''dvar_torah'' \<and> cl = [''research'', ''content'', ''translation''])"
  by (auto simp: required_steps_def split: if_splits)

lemma router_selects:
  "required_steps (task_type s) = Some cl \<Longrightarrow>
   current_agent (orchestrator_node s) = next_step cl (completed_agents s)"
  by (drule known_cases) (auto simp: orchestrator_node_def next_step_def Let_def)

text \<open>What does hold of the selection: the router applied twice in a row leaves what it
  left the first time, and for a routed task type its selection is the same on any two
  states that agree on \<^verbatim>\<open>task_type\<close> and \<^verbatim>\<open>completed_agents\<close>.\<close>

lemma router_twice:
  "current_agent (orchestrator_node (orchestrator_node s)) = current_agent (orchestrator_node s)"
  by (simp add: orchestrator_node_def Let_def)

lemma router_routed_selection:
  assumes "required_steps (task_type s) = Some cl" "task_type t = task_type s"
    "completed_agents t = completed_agents s"
  shows "current_agent (orchestrator_node t) = current_agent (orchestrator_node s)"
  using assms by (simp add: router_selects)

lemma unrouted_names:
  "required_steps tt = None \<Longrightarrow>
   tt \<noteq> ''farbrengen'' \<and> tt \<noteq> ''source_lookup'' \<and> tt \<noteq> ''dvar_torah''"
  by (auto simp: required_steps_def split: if_splits)

lemma router_unrouted:
  "required_steps (task_type s) = None \<Longrightarrow>
   orchestrator_node s =
     s\<lparr>messages := messages s @ [''[ORCHESTRATOR] Starting task: '' @ task_type s]\<rparr>"
  by (drule unrouted_names) (simp add: orchestrator_node_def Let_def)

lemma checklist_agents: "required_steps tt = Some cl \<Longrightarrow> set cl \<subseteq> set agents"
  by (drule known_cases) (auto simp: agents_def)

lemma links_after_research:
  "required_steps tt = Some cl \<Longrightarrow> find (\<lambda>a. a \<notin> set c) cl = Some ''links'' \<Longrightarrow>
   ''research'' \<in> set c"
  by (drule known_cases) (auto split: if_splits)

lemma agent_edge: "a \<in> set agents \<Longrightarrow> conditional_edges a = Some a"
  by (auto simp: agents_def conditional_edges_def)

lemma agent_label:
  "a \<in> set agents \<Longrightarrow>
   a \<noteq> ''done'' \<and> a \<noteq> ''complete'' \<and> a \<noteq> END \<and> a \<noteq> ''orchestrator'' \<and> a \<noteq> ''completion''"
  by (auto simp: agents_def END_def)

lemma orchestrator_not_end: "''orchestrator'' \<noteq> END"
  by (simp add: END_def)

lemma orchestrator_frame:
  "task_id (orchestrator_node s) = task_id s"
  "task_type (orchestrator_node s) = task_type s"
  "user_input (orchestrator_node s) = user_input s"
  "completed_agents (orchestrator_node s) = completed_agents s"
  by (simp_all add: orchestrator_node_def Let_def)

lemma research_frame:
  "research_agent_node w s = Inr s' \<Longrightarrow>
     task_id s' = task_id s \<and> task_type s' = task_type s \<and> user_input s' = user_input s \<and>
     completed_agents s' = completed_agents s @ [''research'']"
  by (auto simp: research_agent_node_def Let_def split: sum.splits)

lemma content_frame:
  "content_generation_node w s = Inr s' \<Longrightarrow>
     task_id s' = task_id s \<and> task_type s' = task_type s \<and> user_input s' = user_input s \<and>
     completed_agents s' = completed_agents s @ [''content'']"
  by (auto simp: content_generation_node_def Let_def split: sum.splits)

lemma links_frame:
  "link_verification_node w s = Inr s' \<Longrightarrow>
     task_id s' = task_id s \<and> task_type s' = task_type s \<and> user_input s' = user_input s \<and>
     completed_agents s' = completed_agents s @ [''links'']"
  by (auto simp: link_verification_node_def Let_def)

lemma context_frame:
  "context_enrichment_node w s = Inr s' \<Longrightarrow>
     task_id s' = task_id s \<and> task_type s' = task_type s \<and> user_input s' = user_input s \<and>
     completed_agents s' = completed_agents s @ [''context'']"
  by (auto simp: context_enrichment_node_def split: sum.splits)

lemma translation_frame:
  "translation_node w s = Inr s' \<Longrightarrow>
     task_id s' = task_id s \<and> task_type s' = task_type s \<and> user_input s' = user_input s \<and>
     completed_agents s' = completed_agents s @ [''translation'']"
  by (auto simp: translation_node_def)

lemma completion_frame:
  "completion_node w s = Inr s' \<Longrightarrow>
     task_id s' = task_id s \<and> task_type s' = task_type s \<and> user_input s' = user_input s \<and>
     completed_agents s' = completed_agents s"
  by (auto simp: completion_node_def)

lemma node_fun_cases:
  "node_fun w name = Some f \<Longrightarrow>
     (name = ''orchestrator'' \<and> f = (\<lambda>state. Inr (orchestrator_node state))) \<or>
     (name = ''research'' \<and> f = research_agent_node w) \<or>
     (name = ''content'' \<and> f = content_generation_node w) \<or>
     (name = ''links'' \<and> f = link_verification_node w) \<or>
     (name = ''context'' \<and> f = context_enrichment_node w) \<or>
     (name = ''translation'' \<and> f = translation_node w) \<or>
     (name = ''completion'' \<and> f = completion_node w)"
  by (auto simp: node_fun_def split: if_splits)

lemma invoke_cases:
  assumes "invoke w name s = Inr s'"
  shows "(name = ''orchestrator'' \<and> s' = orchestrator_node s) \<or>
     (name = ''research'' \<and> research_agent_node w s = Inr s') \<or>
     (name = ''content'' \<and> content_generation_node w s = Inr s') \<or>
     (name = ''links'' \<and> link_verification_node w s = Inr s') \<or>
     (name = ''context'' \<and> context_enrichment_node w s = Inr s') \<or>
     (name = ''translation'' \<and> translation_node w s = Inr s') \<or>
     (name = ''completion'' \<and> completion_node w s = Inr s')"
proof (cases "node_fun w name")
  case None
  with assms show ?thesis by (simp add: invoke_def)
next
  case (Some f)
  from node_fun_cases [OF Some] assms Some show ?thesis
    by (auto simp: invoke_def)
qed

lemma invoke_orchestrator: "invoke w ''orchestrator'' s = Inr (orchestrator_node s)"
  by (simp add: invoke_def node_fun_def)

lemma invoke_completion: "invoke w ''completion'' s = completion_node w s"
  by (simp add: invoke_def node_fun_def)

lemma invoke_agent_frame:
  "a \<in> set agents \<Longrightarrow> invoke w a s = Inr s' \<Longrightarrow>
     task_type s' = task_type s \<and> completed_agents s' = completed_agents s @ [a]"
  by (auto simp: agents_def invoke_def node_fun_def research_agent_node_def
        content_generation_node_def link_verification_node_def context_enrichment_node_def
        translation_node_def Let_def
      split: sum.splits)

lemma invoke_appends:
  "invoke w name s = Inr s' \<Longrightarrow>
   completed_agents s' = completed_agents s \<or> completed_agents s' = completed_agents s @ [name]"
  by (drule invoke_cases)
     (auto simp: orchestrator_frame dest: research_frame content_frame links_frame context_frame
        translation_frame completion_frame)

lemma route_pending:
  assumes "required_steps (task_type s) = Some cl"
    and "find (\<lambda>a. a \<notin> set (completed_agents s)) cl = Some a"
  shows "next_node ''orchestrator'' (orchestrator_node s) = Inr a \<and> a \<in> set agents \<and>
         a \<in> set cl \<and> a \<notin> set (completed_agents s)"
proof -
  from assms(2) have a: "a \<in> set cl" "a \<notin> set (completed_agents s)"
    by (auto simp: find_Some_iff)
  with checklist_agents [OF assms(1)] have ag: "a \<in> set agents" by auto
  have "current_agent (orchestrator_node s) = a"
    using router_selects [OF assms(1)] assms(2) by (simp add: next_step_def)
  with ag agent_label [OF ag] agent_edge [OF ag] a show ?thesis
    by (simp add: next_node_def should_continue_def Let_def)
qed

lemma route_done:
  assumes "required_steps (task_type s) = Some cl"
    and "find (\<lambda>a. a \<notin> set (completed_agents s)) cl = None"
  shows "next_node ''orchestrator'' (orchestrator_node s) = Inr ''completion''"
proof -
  have "current_agent (orchestrator_node s) = ''complete''"
    using router_selects [OF assms(1)] assms(2) by (simp add: next_step_def)
  then show ?thesis
    by (simp add: next_node_def should_continue_def Let_def conditional_edges_def END_def)
qed

lemma next_agent: "a \<in> set agents \<Longrightarrow> next_node a s = Inr ''orchestrator''"
  using agent_label [of a] by (simp add: next_node_def)

lemma next_completion: "next_node ''completion'' s = Inr END"
  by (simp add: next_node_def agents_def)

section \<open>Facts about the driver loop\<close>

lemma filter_conj_le: "length (filter (\<lambda>x. Q x \<and> P x) xs) \<le> length (filter P xs)"
  by (induction xs) auto

lemma pending_shrinks:
  assumes "a \<in> set cl" "a \<notin> set c"
  shows "length (filter (\<lambda>x. x \<notin> set (c @ [a])) cl) < length (filter (\<lambda>x. x \<notin> set c) cl)"
  using assms
proof (induction cl)
  case Nil
  then show ?case by simp
next
  case (Cons x xs)
  show ?case
  proof (cases "x = a")
    case True
    have "length (filter (\<lambda>x. x \<noteq> a \<and> x \<notin> set c) xs) \<le> length (filter (\<lambda>x. x \<notin> set c) xs)"
      by (rule filter_conj_le)
    with True Cons.prems show ?thesis by simp
  next
    case False
    with Cons show ?thesis by simp
  qed
qed

lemma run_step_ok:
  "name \<noteq> END \<Longrightarrow> invoke (ws i) name s = Inr s' \<Longrightarrow> next_node name s' = Inr name' \<Longrightarrow>
   run_from ws (Suc fuel) i name s =
     (case run_from ws fuel (Suc i) name' s' of
        None \<Rightarrow> None
      | Some (trace, result) \<Rightarrow> Some (name # trace, result))"
  by simp

lemma run_completion:
  "run_from ws (Suc fuel) i ''completion'' s = Some ([''completion''], completion_node (ws i) s)"
  by (cases fuel) (simp_all add: invoke_completion completion_node_def next_completion END_def)

lemma run_bounded:
  assumes "required_steps (task_type s) = Some cl"
    and "length (filter (\<lambda>a. a \<notin> set (completed_agents s)) cl) \<le> k"
  shows "\<exists>trace result. run_from ws (2 * k + 2) i ''orchestrator'' s = Some (trace, result) \<and>
           count_list trace ''orchestrator'' \<le> k + 1 \<and>
           (case result of
              Inl e \<Rightarrow> last trace \<in> set agents \<and> (\<exists>j s0. invoke (ws j) (last trace) s0 = Inl e)
            | Inr s' \<Rightarrow> current_agent s' = ''done'' \<and> last trace = ''completion'')"
  using assms
proof (induction k arbitrary: s i)
  case 0
  then have none: "find (\<lambda>a. a \<notin> set (completed_agents s)) cl = None"
    by (simp add: find_None_iff filter_empty_conv)
  have "run_from ws (Suc (Suc 0)) i ''orchestrator'' s =
      Some ([''orchestrator'', ''completion''], completion_node (ws (Suc i)) (orchestrator_node s))"
    by (simp add: run_step_ok [OF orchestrator_not_end invoke_orchestrator route_done [OF "0.prems"(1) none]]
          run_completion del: run_from.simps)
  then show ?case by (simp add: completion_node_def numeral_2_eq_2)
next
  case (Suc k)
  have fuel: "2 * Suc k + 2 = Suc (Suc (2 * k + 2))" by simp
  show ?case
  proof (cases "find (\<lambda>a. a \<notin> set (completed_agents s)) cl")
    case None
    have "run_from ws (2 * Suc k + 2) i ''orchestrator'' s =
      Some ([''orchestrator'', ''completion''], completion_node (ws (Suc i)) (orchestrator_node s))"
      unfolding fuel
      by (simp add: run_step_ok [OF orchestrator_not_end invoke_orchestrator route_done [OF Suc.prems(1) None]]
            run_completion del: run_from.simps mult_Suc_right)
    then show ?thesis by (simp add: completion_node_def)
  next
    case (Some a)
    note r = route_pending [OF Suc.prems(1) Some]
    then have ag: "a \<in> set agents" and acl: "a \<in> set cl" and anc: "a \<notin> set (completed_agents s)"
      by simp_all
    have a_not_end: "a \<noteq> END" using agent_label [OF ag] by simp
    have a_not_router: "a \<noteq> ''orchestrator''" using agent_label [OF ag] by simp
    show ?thesis
    proof (cases "invoke (ws (Suc i)) a (orchestrator_node s)")
      case (Inl e)
      then have "run_from ws (2 * Suc k + 2) i ''orchestrator'' s = Some ([''orchestrator'', a], Inl e)"
        unfolding fuel using r a_not_end
        by (simp add: invoke_orchestrator END_def del: mult_Suc_right)
      moreover have "\<exists>j s0. invoke (ws j) a s0 = Inl e" using Inl by blast
      ultimately show ?thesis using a_not_router ag by simp
    next
      case (Inr s2)
      from invoke_agent_frame [OF ag Inr]
      have tt: "task_type s2 = task_type s" and c2: "completed_agents s2 = completed_agents s @ [a]"
        by (simp_all add: orchestrator_frame)
      have "length (filter (\<lambda>x. x \<notin> set (completed_agents s2)) cl) \<le> k"
        using pending_shrinks [OF acl anc] Suc.prems(2) c2 by simp
      with Suc.IH [of s2 "Suc (Suc i)"] Suc.prems(1) tt
      obtain trace result where
        run2: "run_from ws (2 * k + 2) (Suc (Suc i)) ''orchestrator'' s2 = Some (trace, result)" and
        cnt: "count_list trace ''orchestrator'' \<le> k + 1" and
        fin: "(case result of
                 Inl e \<Rightarrow> last trace \<in> set agents \<and> (\<exists>j s0. invoke (ws j) (last trace) s0 = Inl e)
               | Inr s' \<Rightarrow> current_agent s' = ''done'' \<and> last trace = ''completion'')"
        by auto
      have run1: "run_from ws (2 * Suc k + 2) i ''orchestrator'' s = Some (''orchestrator'' # a # trace, result)"
        unfolding fuel using r a_not_end Inr run2
        by (simp add: invoke_orchestrator next_agent [OF ag] END_def del: mult_Suc_right)
      have ne: "trace \<noteq> []"
        using run2 by (auto simp: invoke_orchestrator END_def split: sum.splits option.splits)
      then have l: "last (''orchestrator'' # a # trace) = last trace" by simp
      have c: "count_list (''orchestrator'' # a # trace) ''orchestrator'' \<le> Suc k + 1"
        using cnt a_not_router by simp
      from fin have "(case result of
                 Inl e \<Rightarrow> last (''orchestrator'' # a # trace) \<in> set agents \<and>
                   (\<exists>j s0. invoke (ws j) (last (''orchestrator'' # a # trace)) s0 = Inl e)
               | Inr s' \<Rightarrow> current_agent s' = ''done'' \<and> last (''orchestrator'' # a # trace) = ''completion'')"
        unfolding l .
      with run1 c show ?thesis by blast
    qed
  qed
qed

text \<open>The definitions that a run unfolds.\<close>

lemmas run_defs = run_workflow_def invoke_def node_fun_def next_node_def should_continue_def
  conditional_edges_def END_def agents_def orchestrator_node_def research_agent_node_def
  content_generation_node_def link_verification_node_def context_enrichment_node_def
  translation_node_def completion_node_def Let_def source_line_def sicha_source_def
  List.map_filter_simps

lemma visit_farbrengen:
  assumes "task_type s = ''farbrengen''" "completed_agents s = []"
    and rp: "\<And>i q. research_plan (ws i) q = Inr (plan i q)"
    and cd: "\<And>i q. context_data (ws i) q = Inr (ctx i q)"
    and ct: "\<And>i tt st ui c. content_text (ws i) tt st ui c = Inr (txt i tt st ui c)"
  shows "\<exists>final. run_workflow ws 10 s =
      Some ([''orchestrator'', ''research'', ''orchestrator'', ''context'',
             ''orchestrator'', ''content'', ''orchestrator'', ''links'',
             ''orchestrator'', ''completion''], Inr final) \<and>
      completed_agents final = [''research'', ''context'', ''content'', ''links'']"
proof -
  have ten: "(10::nat) = Suc (Suc (Suc (Suc (Suc (Suc (Suc (Suc (Suc (Suc 0)))))))))" by simp
  show ?thesis unfolding ten using assms(1,2)
    by (simp add: run_defs rp cd ct)
qed

lemma visit_source_lookup:
  assumes "task_type s = ''source_lookup''" "completed_agents s = []"
    and rp: "\<And>i q. research_plan (ws i) q = Inr (plan i q)"
  shows "\<exists>final. run_workflow ws 6 s =
      Some ([''orchestrator'', ''research'', ''orchestrator'', ''links'',
             ''orchestrator'', ''completion''], Inr final) \<and>
      completed_agents final = [''research'', ''links'']"
proof -
  have six: "(6::nat) = Suc (Suc (Suc (Suc (Suc (Suc 0)))))" by simp
  show ?thesis unfolding six using assms(1,2)
    by (simp add: run_defs rp)
qed

lemma visit_dvar_torah:
  assumes "task_type s = ''dvar_torah''" "completed_agents s = []"
    and rp: "\<And>i q. research_plan (ws i) q = Inr (plan i q)"
    and ct: "\<And>i tt st ui c. content_text (ws i) tt st ui c = Inr (txt i tt st ui c)"
  shows "\<exists>final. run_workflow ws 8 s =
      Some ([''orchestrator'', ''research'', ''orchestrator'', ''content'',
             ''orchestrator'', ''translation'', ''orchestrator'', ''completion''], Inr final) \<and>
      completed_agents final = [''research'', ''content'', ''translation'']"
proof -
  have eight: "(8::nat) = Suc (Suc (Suc (Suc (Suc (Suc (Suc (Suc 0)))))))" by simp
  show ?thesis unfolding eight using assms(1,2)
    by (simp add: run_defs rp ct)
qed

lemma visit_returns:
  assumes r: "required_steps (task_type s) = Some cl" and e: "completed_agents s = []"
    and rp: "\<And>i q. \<not> isl (research_plan (ws i) q)"
    and cd: "\<And>i q. \<not> isl (context_data (ws i) q)"
    and ct: "\<And>i tt st ui c. \<not> isl (content_text (ws i) tt st ui c)"
  shows "\<exists>trace final. run_workflow ws (2 * length cl + 2) s = Some (trace, Inr final)"
proof -
  define plan where "plan = (\<lambda>i q. projr (research_plan (ws i) q))"
  define ctx where "ctx = (\<lambda>i q. projr (context_data (ws i) q))"
  define reply where "reply = (\<lambda>i tt st ui c. projr (content_text (ws i) tt st ui c))"
  have rp': "\<And>i q. research_plan (ws i) q = Inr (plan i q)"
    using rp by (simp add: plan_def)
  have cd': "\<And>i q. context_data (ws i) q = Inr (ctx i q)"
    using cd by (simp add: ctx_def)
  have ct': "\<And>i tt st ui c. content_text (ws i) tt st ui c = Inr (reply i tt st ui c)"
    using ct by (simp add: reply_def)
  from known_cases [OF r] show ?thesis
  proof (elim disjE conjE)
    assume "task_type s = ''farbrengen''" "cl = [''research'', ''context'', ''content'', ''links'']"
    with visit_farbrengen [where ws = ws, OF _ e rp' cd' ct'] show ?thesis by auto
  next
    assume "task_type s = ''source_lookup''" "cl = [''research'', ''links'']"
    with visit_source_lookup [where ws = ws, OF _ e rp'] show ?thesis by auto
  next
    assume "task_type s = ''dvar_torah''" "cl = [''research'', ''content'', ''translation'']"
    with visit_dvar_torah [where ws = ws, OF _ e rp' ct'] show ?thesis by auto
  qed
qed

section \<open>Facts about the link verifier\<close>

lemma map_filter_url:
  "map (\<lambda>e. map_of e ''url'')
     (map (verified_link w) (enumerate n (List.map_filter (\<lambda>s. map_of s ''url'') xs))) =
   map (\<lambda>s. map_of s ''url'') (filter (\<lambda>s. map_of s ''url'' \<noteq> None) xs)"
  by (induction xs arbitrary: n)
     (auto simp: List.map_filter_simps verified_link_def split: option.splits)

lemma map_status:
  "map (\<lambda>e. map_of e ''status'') (map (verified_link w) kus) =
   replicate (length kus) (Some ''ACTIVE'')"
  by (induction kus) (auto simp: verified_link_def)

lemma length_map_filter:
  "length (List.map_filter f xs) = length (filter (\<lambda>s. f s \<noteq> None) xs)"
  by (induction xs) (auto simp: List.map_filter_simps split: option.splits)

section \<open>The invariant is kept by every node\<close>

lemma inv_start: "run_invariant ''orchestrator'' (initial_state stamp tt input)"
  by (simp add: run_invariant_def outputs_match_def initial_state_def)

lemma outputs_match_orchestrator: "outputs_match (orchestrator_node s) = outputs_match s"
  by (simp add: outputs_match_def orchestrator_node_def Let_def)

lemma inv_orchestrator:
  assumes "run_invariant ''orchestrator'' s"
    and "next_node ''orchestrator'' (orchestrator_node s) = Inr name'"
  shows "run_invariant name' (orchestrator_node s)"
proof (cases "required_steps (task_type s)")
  case None
  with assms(1) have "current_agent s = ''orchestrator''" by (simp add: run_invariant_def)
  then have "next_node ''orchestrator'' (orchestrator_node s) = Inl (KeyError ''orchestrator'')"
    by (simp add: router_unrouted [OF None] next_node_def should_continue_def conditional_edges_def
          END_def Let_def)
  with assms(2) show ?thesis by simp
next
  case (Some cl)
  from assms(1) have om: "outputs_match (orchestrator_node s)"
    by (simp add: run_invariant_def outputs_match_orchestrator)
  show ?thesis
  proof (cases "find (\<lambda>a. a \<notin> set (completed_agents s)) cl")
    case None
    from route_done [OF Some None] assms(2) have "name' = ''completion''" by simp
    with om show ?thesis by (simp add: run_invariant_def agents_def)
  next
    case (Some a)
    note r = route_pending [OF \<open>required_steps (task_type s) = Some cl\<close> Some]
    with assms(2) have n: "name' = a" by simp
    from r have ag: "a \<in> set agents" and anc: "a \<notin> set (completed_agents s)" by simp_all
    have "a = ''links'' \<longrightarrow> ''research'' \<in> set (completed_agents s)"
      using links_after_research [OF \<open>required_steps (task_type s) = Some cl\<close>] Some by auto
    with om n ag anc agent_label [OF ag] \<open>required_steps (task_type s) = Some cl\<close> show ?thesis
      by (simp add: run_invariant_def orchestrator_frame)
  qed
qed

lemma inv_router_intro:
  "outputs_match s' \<Longrightarrow> task_type s' = task_type s \<Longrightarrow>
   required_steps (task_type s) \<noteq> None \<Longrightarrow> run_invariant ''orchestrator'' s'"
  by (auto simp: run_invariant_def)

lemma inv_research:
  assumes "run_invariant ''research'' s" "research_agent_node w s = Inr s'"
  shows "run_invariant ''orchestrator'' s'"
proof -
  from assms(1) have om: "outputs_match s" and r: "required_steps (task_type s) \<noteq> None"
    and n: "''research'' \<notin> set (completed_agents s)"
    by (simp_all add: run_invariant_def agents_def)
  from assms(2) obtain plan where
    s': "s' = s\<lparr>sources_found := Present [sicha_source],
                messages := messages s @
                    [''[RESEARCH AGENT] Starting source search...'',
                     ''[RESEARCH AGENT] Found '' @ str_nat (length [sicha_source]) @ '' sources''],
                completed_agents := completed_agents s @ [''research'']\<rparr>"
    by (auto simp: research_agent_node_def Let_def split: sum.splits)
  from om n have "outputs_match s'"
    unfolding s' by (simp add: outputs_match_def Let_def)
  moreover have "task_type s' = task_type s" unfolding s' by simp
  ultimately show ?thesis using r by (rule inv_router_intro)
qed

lemma inv_content:
  assumes "run_invariant ''content'' s" "content_generation_node w s = Inr s'"
  shows "run_invariant ''orchestrator'' s'"
proof -
  from assms(1) have om: "outputs_match s" and r: "required_steps (task_type s) \<noteq> None"
    and n: "''content'' \<notin> set (completed_agents s)"
    by (simp_all add: run_invariant_def agents_def)
  from assms(2) obtain body where
    s': "s' = s\<lparr>english_content := Present (Some body),
                messages := messages s @
                        [''[CONTENT AGENT] Generating content...'',
                         ''[CONTENT AGENT] Content generated successfully''],
                completed_agents := completed_agents s @ [''content'']\<rparr>"
    by (auto simp: content_generation_node_def Let_def split: sum.splits)
  from om n have "outputs_match s'"
    unfolding s' by (simp add: outputs_match_def Let_def)
  moreover have "task_type s' = task_type s" unfolding s' by simp
  ultimately show ?thesis using r by (rule inv_router_intro)
qed

lemma inv_links:
  assumes "run_invariant ''links'' s" "link_verification_node w s = Inr s'"
  shows "run_invariant ''orchestrator'' s'"
proof -
  from assms(1) have om: "outputs_match s" and r: "required_steps (task_type s) \<noteq> None"
    and n: "''links'' \<notin> set (completed_agents s)"
    and re: "''research'' \<in> set (completed_agents s)"
    by (simp_all add: run_invariant_def agents_def)
  from om re have src: "sources_found s = Present [sicha_source]"
    by (simp add: outputs_match_def Let_def)
  from assms(2) have
    s': "s' = s\<lparr>verified_links := Present [verified_link w (0, ''https://www.chabad.org/therebbe/article_cdo/aid/4463154'')],
                broken_links := [],
                messages := messages s @
            [''[LINK VERIFICATION AGENT] Checking URLs...'',
             ''[LINK VERIFICATION] Verified '' @ str_nat (Suc 0) @ '' links''],
                completed_agents := completed_agents s @ [''links'']\<rparr>"
    by (simp add: link_verification_node_def Let_def src sicha_source_def List.map_filter_simps)
  from om n have "outputs_match s'"
    unfolding s' by (simp add: outputs_match_def Let_def)
  moreover have "task_type s' = task_type s" unfolding s' by simp
  ultimately show ?thesis using r by (rule inv_router_intro)
qed

lemma inv_context:
  assumes "run_invariant ''context'' s" "context_enrichment_node w s = Inr s'" "context_not_null w"
  shows "run_invariant ''orchestrator'' s'"
proof -
  from assms(1) have om: "outputs_match s" and r: "required_steps (task_type s) \<noteq> None"
    and n: "''context'' \<notin> set (completed_agents s)"
    by (simp_all add: run_invariant_def agents_def)
  obtain parsed where c: "context_data w (user_input s) = Inr parsed"
    using assms(2) by (cases "context_data w (user_input s)") (simp_all add: context_enrichment_node_def)
  with assms(3) have p: "parsed \<noteq> JNull"
    by (auto simp: context_not_null_def)
  from assms(2) c have
    s': "s' = s\<lparr>current_events_mapped := Present parsed,
                messages := messages s @
             [''[CONTEXT AGENT] Mapping current events...'',
              ''[CONTEXT AGENT] Events mapped successfully''],
                completed_agents := completed_agents s @ [''context'']\<rparr>"
    by (simp add: context_enrichment_node_def)
  from om n p have "outputs_match s'"
    unfolding s' by (simp add: outputs_match_def Let_def)
  moreover have "task_type s' = task_type s" unfolding s' by simp
  ultimately show ?thesis using r by (rule inv_router_intro)
qed

lemma inv_translation:
  assumes "run_invariant ''translation'' s" "translation_node w s = Inr s'"
  shows "run_invariant ''orchestrator'' s'"
proof -
  from assms(1) have om: "outputs_match s" and r: "required_steps (task_type s) \<noteq> None"
    and n: "''translation'' \<notin> set (completed_agents s)"
    by (simp_all add: run_invariant_def agents_def)
  from assms(2) have
    s': "s' = s\<lparr>translations' := JObj
        [(''hebrew_to_english'', JObj []),
         (''english_to_hebrew'', JObj []),
         (''chassidic_terms'',
            JArr [JStr ''shleimus'', JStr ''farbrengen'', JStr ''sicha'', JStr ''igros kodesh''])],
      completed_agents := completed_agents s @ [''translation''],
      messages := messages s @
        [''[TRANSLATION AGENT] Processing translations...'',
         ''[TRANSLATION AGENT] Translations complete'']\<rparr>"
    by (simp add: translation_node_def)
  from om n have "outputs_match s'"
    unfolding s' by (simp add: outputs_match_def Let_def)
  moreover have "task_type s' = task_type s" unfolding s' by simp
  ultimately show ?thesis using r by (rule inv_router_intro)
qed

lemma inv_completion:
  assumes "run_invariant ''completion'' s" "completion_node w s = Inr s'"
  shows "run_invariant END s'"
proof -
  from assms(1) have om: "outputs_match s" by (simp add: run_invariant_def)
  from assms(2) have
    s': "s' = s\<lparr>messages := messages s @ [''[COMPLETION] Assembling final output...''],
      final_output := Some (json_dumps w (assembled (utcnow w 0) s)),
      current_agent := ''done''\<rparr>"
    by (simp add: completion_node_def)
  from om have "outputs_match s'"
    unfolding s' by (simp add: outputs_match_def Let_def)
  then show ?thesis by (simp add: run_invariant_def END_def agents_def)
qed

lemma inv_step:
  assumes "run_invariant name s" "context_not_null w" "invoke w name s = Inr s'"
    "next_node name s' = Inr name'"
  shows "run_invariant name' s'"
  using invoke_cases [OF assms(3)]
proof (elim disjE conjE)
  assume "name = ''orchestrator''" "s' = orchestrator_node s"
  with assms(1,4) show ?thesis by (simp add: inv_orchestrator)
next
  assume n: "name = ''research''" and r: "research_agent_node w s = Inr s'"
  from assms(4) n have "name' = ''orchestrator''" by (simp add: next_agent agents_def)
  with inv_research [OF _ r] assms(1) n show ?thesis by simp
next
  assume n: "name = ''content''" and r: "content_generation_node w s = Inr s'"
  from assms(4) n have "name' = ''orchestrator''" by (simp add: next_agent agents_def)
  with inv_content [OF _ r] assms(1) n show ?thesis by simp
next
  assume n: "name = ''links''" and r: "link_verification_node w s = Inr s'"
  from assms(4) n have "name' = ''orchestrator''" by (simp add: next_agent agents_def)
  with inv_links [OF _ r] assms(1) n show ?thesis by simp
next
  assume n: "name = ''context''" and r: "context_enrichment_node w s = Inr s'"
  from assms(4) n have "name' = ''orchestrator''" by (simp add: next_agent agents_def)
  with inv_context [OF _ r assms(2)] assms(1) n show ?thesis by simp
next
  assume n: "name = ''translation''" and r: "translation_node w s = Inr s'"
  from assms(4) n have "name' = ''orchestrator''" by (simp add: next_agent agents_def)
  with inv_translation [OF _ r] assms(1) n show ?thesis by simp
next
  assume n: "name = ''completion''" and r: "completion_node w s = Inr s'"
  from assms(4) n have "name' = END" by (simp add: next_completion)
  with inv_completion [OF _ r] assms(1) n show ?thesis by simp
qed

lemma config_invariant: "config context_not_null name s \<Longrightarrow> run_invariant name s"
  by (induction rule: config.induct) (auto intro: inv_start inv_step)

lemma outputs_match_populated:
  assumes "outputs_match s" "a \<in> set agents"
  shows "(a \<in> set (completed_agents s)) = populated a s"
proof -
  from assms(1) obtain e l j where
    "sources_found s = Present (if ''research'' \<in> set (completed_agents s) then [sicha_source] else [])"
    "english_content s = Present e" "(e \<noteq> None) = (''content'' \<in> set (completed_agents s))"
    "verified_links s = Present l" "(l \<noteq> []) = (''links'' \<in> set (completed_agents s))"
    "current_events_mapped s = Present j" "(j \<noteq> JNull) = (''context'' \<in> set (completed_agents s))"
    "(translations' s \<noteq> JNull) = (''translation'' \<in> set (completed_agents s))"
    unfolding outputs_match_def Let_def by blast
  with assms(2) show ?thesis
    by (auto simp: agents_def populated_def)
qed

section \<open>Sample runs\<close>

lemma after_research_reached:
  assumes ok: "ok sample_world"
  shows "config ok ''orchestrator'' after_research_state"
proof -
  define s0 where "s0 = initial_state ''0'' ''farbrengen'' ''q''"
  define s1 where "s1 = s0\<lparr>messages := [''[ORCHESTRATOR] Starting task: farbrengen''],
                             current_agent := ''research''\<rparr>"
  have c0: "config ok ''orchestrator'' s0"
    unfolding s0_def by (rule config.start)
  have i1: "invoke sample_world ''orchestrator'' s0 = Inr s1"
    by (simp add: invoke_orchestrator orchestrator_node_def Let_def s0_def s1_def initial_state_def)
  have n1: "next_node ''orchestrator'' s1 = Inr ''research''"
    by (simp add: next_node_def should_continue_def conditional_edges_def END_def s1_def)
  note c1 = config.step [OF c0 ok i1 n1]
  have i2: "invoke sample_world ''research'' s1 = Inr after_research_state"
    by (simp add: invoke_def node_fun_def research_agent_node_def sample_world_def
          s0_def s1_def after_research_state_def initial_state_def str_nat.simps)
  have n2: "next_node ''research'' after_research_state = Inr ''orchestrator''"
    by (simp add: next_agent agents_def)
  from config.step [OF c1 ok i2 n2] show ?thesis .
qed

lemma null_context_reached: "config any_world ''orchestrator'' null_context_state"
proof -
  define s3 where "s3 = after_research_state\<lparr>
      messages := [''[ORCHESTRATOR] Starting task: farbrengen'',
        ''[RESEARCH AGENT] Starting source search...'',
        ''[RESEARCH AGENT] Found 1 sources'',
        ''[ORCHESTRATOR] Starting task: farbrengen''],
      current_agent := ''context''\<rparr>"
  have ok: "any_world w" for w by (simp add: any_world_def)
  have c2: "config any_world ''orchestrator'' after_research_state"
    by (rule after_research_reached) (rule ok)
  have i3: "invoke null_world ''orchestrator'' after_research_state = Inr s3"
    by (simp add: invoke_orchestrator orchestrator_node_def Let_def after_research_state_def s3_def
          initial_state_def)
  have n3: "next_node ''orchestrator'' s3 = Inr ''context''"
    by (simp add: next_node_def should_continue_def conditional_edges_def END_def s3_def)
  note c3 = config.step [OF c2 ok i3 n3]
  have i4: "invoke null_world ''context'' s3 = Inr null_context_state"
    by (simp add: invoke_def node_fun_def context_enrichment_node_def null_world_def sample_world_def
          after_research_state_def s3_def initial_state_def null_context_state_def)
  have n4: "next_node ''context'' null_context_state = Inr ''orchestrator''"
    by (simp add: next_agent agents_def)
  from config.step [OF c3 ok i4 n4] show ?thesis .
qed

lemma sample_world_not_null: "context_not_null sample_world"
  by (simp add: context_not_null_def sample_world_def)

lemma research_initial:
  "invoke sample_world ''research'' (initial_state stamp tt input) =
   Inr (research_only_state stamp tt input)"
  by (simp add: invoke_def node_fun_def research_agent_node_def sample_world_def initial_state_def
        research_only_state_def str_nat.simps)

lemma two_calls:
  "invoke_all [(sample_world, ''research''), (sample_world, ''orchestrator'')]
     (initial_state ''0'' ''dvar_torah'' ''q'') =
   Inr (orchestrator_node (research_only_state ''0'' ''dvar_torah'' ''q''))"
  by (simp add: research_initial invoke_orchestrator)

lemma invoke_all_prefix:
  "invoke_all cs s = Inr s' \<Longrightarrow> prefix (completed_agents s) (completed_agents s')"
proof (induction cs arbitrary: s)
  case Nil
  then show ?case by simp
next
  case (Cons c cs)
  then obtain s1 where 1: "invoke (fst c) (snd c) s = Inr s1" and 2: "invoke_all cs s1 = Inr s'"
    by (auto split: sum.splits)
  from invoke_appends [OF 1] have "prefix (completed_agents s) (completed_agents s1)"
    by auto
  with Cons.IH [OF 2] show ?case by (rule prefix_order.trans [rotated])
qed

section \<open>The claims\<close>

text \<open>
  Claim C1. For each of the three routed task types, a run of the workflow that starts
  from a state with no completed step, and in which every call of the collaborator
  returns, runs the router and the steps of the checklist alternately: every step of the
  checklist once, in the order of the checklist, and only then the router selects
  \<^verbatim>\<open>complete\<close> and the completion node runs. The steps recorded as completed at the end
  are the checklist itself.
\<close>

theorem checklist_visited:
  assumes "required_steps (task_type s) = Some cl" "completed_agents s = []"
    and rp: "\<And>i q. research_plan (ws i) q = Inr (plan i q)"
    and cd: "\<And>i q. context_data (ws i) q = Inr (ctx i q)"
    and ct: "\<And>i tt st ui c. content_text (ws i) tt st ui c = Inr (reply i tt st ui c)"
  shows "\<exists>final. run_workflow ws (2 * length cl + 2) s =
      Some (concat (map (\<lambda>a. [''orchestrator'', a]) cl) @ [''orchestrator'', ''completion''],
            Inr final) \<and>
      completed_agents final = cl"
  using known_cases [OF assms(1)]
proof (elim disjE conjE)
  assume "task_type s = ''farbrengen''" "cl = [''research'', ''context'', ''content'', ''links'']"
  with visit_farbrengen [OF _ assms(2) rp cd ct] show ?thesis by simp
next
  assume "task_type s = ''source_lookup''" "cl = [''research'', ''links'']"
  with visit_source_lookup [OF _ assms(2) rp] show ?thesis by simp
next
  assume "task_type s = ''dvar_torah''" "cl = [''research'', ''content'', ''translation'']"
  with visit_dvar_torah [OF _ assms(2) rp ct] show ?thesis by simp
qed

theorem checklist_visited_witness:
  "required_steps (task_type (initial_state ''0'' ''source_lookup'' ''q'')) =
     Some [''research'', ''links''] \<and>
   completed_agents (initial_state ''0'' ''source_lookup'' ''q'') = [] \<and>
   (\<forall>q. research_plan sample_world q = Inr (JObj [(''search_terms'', JArr [JStr q])])) \<and>
   (\<forall>q. context_data sample_world q = Inr (JObj [(''current_events'', JArr [])])) \<and>
   (\<forall>tt st ui c. content_text sample_world tt st ui c = Inr (''Opening: '' @ ui)) \<and>
   (\<exists>final. run_workflow (\<lambda>i. sample_world) 6 (initial_state ''0'' ''source_lookup'' ''q'') =
      Some ([''orchestrator'', ''research'', ''orchestrator'', ''links'',
             ''orchestrator'', ''completion''], Inr final) \<and>
      completed_agents final = [''research'', ''links''])"
proof -
  have h1: "required_steps (task_type (initial_state ''0'' ''source_lookup'' ''q'')) =
      Some [''research'', ''links'']"
    by (simp add: initial_state_def required_steps_def)
  have h2: "completed_agents (initial_state ''0'' ''source_lookup'' ''q'') = []"
    by (simp add: initial_state_def)
  have h3: "\<And>i q. research_plan ((\<lambda>i. sample_world) i) q =
      Inr ((\<lambda>i q. JObj [(''search_terms'', JArr [JStr q])]) i q)"
    by (simp add: sample_world_def)
  have h4: "\<And>i q. context_data ((\<lambda>i. sample_world) i) q =
      Inr ((\<lambda>i q. JObj [(''current_events'', JArr [])]) i q)"
    by (simp add: sample_world_def)
  have h5: "\<And>i tt st ui c. content_text ((\<lambda>i. sample_world) i) tt st ui c =
      Inr ((\<lambda>i tt st ui c. ''Opening: '' @ ui) i tt st ui c)"
    by (simp add: sample_world_def)
  from checklist_visited [OF h1 h2 h3 h4 h5] h1 h2 show ?thesis
    by (simp add: sample_world_def)
qed

text \<open>
  Claim C2. The claim is that for a task type outside the three routed ones the router
  yields the terminal marker and the run goes to the completion node with no step
  executed. The code does not: the chain of \<^verbatim>\<open>orchestrator_node\<close> has no final
  \<^verbatim>\<open>else\<close>, so \<^verbatim>\<open>current_agent\<close> keeps the value it had. For the task type
  \<^verbatim>\<open>shiur\<close>, which the comment on \<^verbatim>\<open>AgentState.task_type\<close> lists, and the initial state
  of \<^verbatim>\<open>run_orchestrator\<close>, \<^verbatim>\<open>should_continue\<close> returns \<^verbatim>\<open>orchestrator\<close>; the
  conditional edges have no such label, and the run ends there with a \<^verbatim>\<open>KeyError\<close>,
  the completion node never run. Were \<^verbatim>\<open>current_agent\<close> the name of a step, that step
  would be selected.
\<close>

theorem unrouted_run_fails:
  "should_continue (orchestrator_node (initial_state stamp ''shiur'' input)) = ''orchestrator'' \<and>
   conditional_edges ''orchestrator'' = None \<and>
   run_workflow ws (Suc fuel) (initial_state stamp ''shiur'' input) =
     Some ([''orchestrator''], Inl (KeyError ''orchestrator'')) \<and>
   should_continue
     (orchestrator_node ((initial_state stamp ''shiur'' input)\<lparr>current_agent := ''links''\<rparr>)) =
     ''links''"
  by (simp add: should_continue_def orchestrator_node_def initial_state_def conditional_edges_def
        END_def run_workflow_def invoke_def node_fun_def next_node_def Let_def)

text \<open>
  Claim C3. For a state of a routed task type the router sets \<^verbatim>\<open>current_agent\<close> to the
  first entry of the checklist that is not a member of \<^verbatim>\<open>completed_agents\<close>, and to
  \<^verbatim>\<open>complete\<close> when all are members. Membership decides, not position: for
  \<^verbatim>\<open>farbrengen\<close> with \<^verbatim>\<open>research\<close> and \<^verbatim>\<open>content\<close> among the completed steps and
  \<^verbatim>\<open>context\<close> not, the router selects \<^verbatim>\<open>context\<close>; and once \<^verbatim>\<open>content\<close> is a member
  the router never selects it.
\<close>

theorem router_first_pending:
  "(required_steps (task_type s) = Some cl \<longrightarrow>
      current_agent (orchestrator_node s) = next_step cl (completed_agents s)) \<and>
   (task_type s = ''farbrengen'' \<and> ''research'' \<in> set (completed_agents s) \<and>
      ''content'' \<in> set (completed_agents s) \<and> ''context'' \<notin> set (completed_agents s) \<longrightarrow>
      current_agent (orchestrator_node s) = ''context'') \<and>
   (required_steps (task_type s) = Some cl \<and> ''content'' \<in> set (completed_agents s) \<longrightarrow>
      current_agent (orchestrator_node s) \<noteq> ''content'')"
proof (intro conjI impI)
  assume "required_steps (task_type s) = Some cl"
  then show "current_agent (orchestrator_node s) = next_step cl (completed_agents s)"
    by (rule router_selects)
next
  assume "task_type s = ''farbrengen'' \<and> ''research'' \<in> set (completed_agents s) \<and>
      ''content'' \<in> set (completed_agents s) \<and> ''context'' \<notin> set (completed_agents s)"
  then show "current_agent (orchestrator_node s) = ''context''"
    by (simp add: orchestrator_node_def Let_def)
next
  assume a: "required_steps (task_type s) = Some cl \<and> ''content'' \<in> set (completed_agents s)"
  then have "''content'' \<in> set (completed_agents s)" by simp
  with known_cases [of "task_type s" cl] a
  show "current_agent (orchestrator_node s) \<noteq> ''content''"
    by (auto simp: orchestrator_node_def Let_def)
qed

theorem router_first_pending_witness:
  "required_steps (task_type preset_state) =
     Some [''research'', ''context'', ''content'', ''links''] \<and>
   task_type preset_state = ''farbrengen'' \<and>
   ''research'' \<in> set (completed_agents preset_state) \<and>
   ''content'' \<in> set (completed_agents preset_state) \<and>
   ''context'' \<notin> set (completed_agents preset_state) \<and>
   next_step [''research'', ''context'', ''content'', ''links''] (completed_agents preset_state) =
     ''context'' \<and>
   current_agent (orchestrator_node preset_state) = ''context'' \<and>
   current_agent (orchestrator_node preset_state) \<noteq> ''content''"
  using router_first_pending [of preset_state "[''research'', ''context'', ''content'', ''links'']"]
  by (simp add: preset_state_def initial_state_def required_steps_def next_step_def)

text \<open>
  Claim C4. For every state of a routed task type, whatever the collaborator answers,
  the driver loop ends: with a checklist of length \<open>N\<close> it runs at most \<open>2 * N + 2\<close>
  nodes, the router at most \<open>N + 1\<close> times among them. The routing itself never fails:
  a run that ends with an exception ends in a step executor, with the exception that
  this executor raised; every other run ends with the completion node, which
  \<^verbatim>\<open>should_continue\<close> selected, and reaches \<^verbatim>\<open>END\<close> with \<^verbatim>\<open>current_agent\<close> set to
  \<^verbatim>\<open>done\<close>. From a state with no completed step, when every call of the collaborator
  returns, the run is of the second kind.
\<close>

theorem driver_terminates:
  assumes "required_steps (task_type s) = Some cl"
  shows "\<exists>trace result. run_workflow ws (2 * length cl + 2) s = Some (trace, result) \<and>
           count_list trace ''orchestrator'' \<le> length cl + 1 \<and>
           (case result of
              Inl e \<Rightarrow> last trace \<in> set agents \<and> (\<exists>j s0. invoke (ws j) (last trace) s0 = Inl e)
            | Inr s' \<Rightarrow> current_agent s' = ''done'' \<and> last trace = ''completion'') \<and>
           (completed_agents s = [] \<and>
            (\<forall>i q. \<not> isl (research_plan (ws i) q)) \<and>
            (\<forall>i q. \<not> isl (context_data (ws i) q)) \<and>
            (\<forall>i tt st ui c. \<not> isl (content_text (ws i) tt st ui c)) \<longrightarrow>
            (\<exists>s'. result = Inr s' \<and> current_agent s' = ''done'' \<and> last trace = ''completion''))"
proof -
  have "length (filter (\<lambda>a. a \<notin> set (completed_agents s)) cl) \<le> length cl"
    by (rule length_filter_le)
  from run_bounded [OF assms this, of ws 0]
  obtain trace result where
    run: "run_workflow ws (2 * length cl + 2) s = Some (trace, result)" and
    cnt: "count_list trace ''orchestrator'' \<le> length cl + 1" and
    fin: "(case result of
              Inl e \<Rightarrow> last trace \<in> set agents \<and> (\<exists>j s0. invoke (ws j) (last trace) s0 = Inl e)
            | Inr s' \<Rightarrow> current_agent s' = ''done'' \<and> last trace = ''completion'')"
    unfolding run_workflow_def by blast
  have "\<exists>s'. result = Inr s' \<and> current_agent s' = ''done'' \<and> last trace = ''completion''"
    if ok: "completed_agents s = [] \<and>
            (\<forall>i q. \<not> isl (research_plan (ws i) q)) \<and>
            (\<forall>i q. \<not> isl (context_data (ws i) q)) \<and>
            (\<forall>i tt st ui c. \<not> isl (content_text (ws i) tt st ui c))"
  proof -
    from visit_returns [OF assms, of ws] ok
    obtain trace' final where "run_workflow ws (2 * length cl + 2) s = Some (trace', Inr final)"
      by blast
    with run have "result = Inr final" by simp
    with fin show ?thesis by simp
  qed
  with run cnt fin show ?thesis by blast
qed

theorem driver_terminates_witness:
  "required_steps (task_type (initial_state ''0'' ''source_lookup'' ''q'')) =
     Some [''research'', ''links''] \<and>
   completed_agents (initial_state ''0'' ''source_lookup'' ''q'') = [] \<and>
   (\<forall>q. \<not> isl (research_plan sample_world q)) \<and>
   (\<forall>q. \<not> isl (context_data sample_world q)) \<and>
   (\<forall>tt st ui c. \<not> isl (content_text sample_world tt st ui c)) \<and>
   (\<exists>trace s'.
      run_workflow (\<lambda>i. sample_world) 6 (initial_state ''0'' ''source_lookup'' ''q'') =
        Some (trace, Inr s') \<and>
      count_list trace ''orchestrator'' \<le> 3 \<and>
      current_agent s' = ''done'' \<and> last trace = ''completion'')"
proof -
  have h1: "required_steps (task_type (initial_state ''0'' ''source_lookup'' ''q'')) =
      Some [''research'', ''links'']"
    by (simp add: initial_state_def required_steps_def)
  have h2: "completed_agents (initial_state ''0'' ''source_lookup'' ''q'') = []"
    by (simp add: initial_state_def)
  have h3: "\<forall>q. \<not> isl (research_plan sample_world q)"
    "\<forall>q. \<not> isl (context_data sample_world q)"
    "\<forall>tt st ui c. \<not> isl (content_text sample_world tt st ui c)"
    by (simp_all add: sample_world_def)
  have n: "2 * length [''research'', ''links''] + 2 = (6::nat)"
    "length [''research'', ''links''] + 1 = (3::nat)"
    by simp_all
  from driver_terminates [OF h1, of "\<lambda>i. sample_world"] h1 h2 h3 show ?thesis
    unfolding n by blast
qed

text \<open>
  Claim C5, as stated. The claim is that in every state reachable by the router and the
  step executors a step is among the completed ones exactly when its output field is
  populated. It fails when the reply to the context prompt is the text \<^verbatim>\<open>null\<close>:
  \<^verbatim>\<open>json.loads\<close> returns \<^verbatim>\<open>None\<close>, the context step stores it and marks itself
  completed, and \<^verbatim>\<open>current_events_mapped\<close> is as unset as before.
\<close>

theorem null_reply_counterexample:
  "config any_world ''orchestrator'' null_context_state \<and>
   ''context'' \<in> set (completed_agents null_context_state) \<and>
   \<not> populated ''context'' null_context_state"
  using null_context_reached
  by (simp add: null_context_state_def populated_def)

text \<open>
  Claim C5, as amended. In every configuration of a run of the workflow from
  the initial state of \<^verbatim>\<open>run_orchestrator\<close>, in which no reply to the context prompt
  parses to \<^verbatim>\<open>null\<close>: each of the five steps is among the completed ones exactly when
  the output field it owns is populated, and no step is recorded twice.
\<close>

theorem completed_iff_populated:
  "config context_not_null name s \<Longrightarrow>
   (\<forall>a \<in> set agents. (a \<in> set (completed_agents s)) = populated a s) \<and>
   distinct (completed_agents s)"
proof -
  assume "config context_not_null name s"
  then have "run_invariant name s" by (rule config_invariant)
  then have om: "outputs_match s" by (simp add: run_invariant_def)
  then have "distinct (completed_agents s)" by (simp add: outputs_match_def Let_def)
  with outputs_match_populated [OF om] show ?thesis by blast
qed

theorem completed_iff_populated_witness:
  "config context_not_null ''orchestrator'' after_research_state \<and>
   completed_agents after_research_state = [''research''] \<and>
   populated ''research'' after_research_state \<and>
   \<not> populated ''content'' after_research_state \<and>
   \<not> populated ''links'' after_research_state \<and>
   \<not> populated ''context'' after_research_state \<and>
   \<not> populated ''translation'' after_research_state \<and>
   distinct (completed_agents after_research_state)"
proof -
  have c: "config context_not_null ''orchestrator'' after_research_state"
    by (rule after_research_reached) (rule sample_world_not_null)
  have d: "completed_agents after_research_state = [''research'']"
    by (simp add: after_research_state_def)
  from completed_iff_populated [OF c] c d show ?thesis
    by (simp add: agents_def)
qed

text \<open>
  Claim C6. Along any sequence of invocations of nodes (the router, the five step
  executors, the completion assembler), each with any outside world, the list
  \<^verbatim>\<open>completed_agents\<close> only grows at its end: the list before is a prefix of the list
  after, so its length never decreases and nothing in it is removed or reordered.
\<close>

theorem completed_append_only:
  "invoke_all cs s = Inr s' \<Longrightarrow>
   prefix (completed_agents s) (completed_agents s') \<and>
   length (completed_agents s) \<le> length (completed_agents s')"
  by (auto dest: invoke_all_prefix simp: prefix_length_le)

theorem completed_append_only_witness:
  "invoke_all [(sample_world, ''research''), (sample_world, ''orchestrator'')]
     (initial_state ''0'' ''dvar_torah'' ''q'') =
   Inr (orchestrator_node (research_only_state ''0'' ''dvar_torah'' ''q'')) \<and>
   completed_agents (initial_state ''0'' ''dvar_torah'' ''q'') = [] \<and>
   completed_agents (orchestrator_node (research_only_state ''0'' ''dvar_torah'' ''q'')) =
     [''research''] \<and>
   prefix (completed_agents (initial_state ''0'' ''dvar_torah'' ''q''))
     (completed_agents (orchestrator_node (research_only_state ''0'' ''dvar_torah'' ''q''))) \<and>
   length (completed_agents (initial_state ''0'' ''dvar_torah'' ''q'')) \<le>
     length (completed_agents (orchestrator_node (research_only_state ''0'' ''dvar_torah'' ''q'')))"
proof -
  have c0: "completed_agents (initial_state ''0'' ''dvar_torah'' ''q'') = []"
    by (simp add: initial_state_def)
  have c1: "completed_agents (orchestrator_node (research_only_state ''0'' ''dvar_torah'' ''q'')) =
      [''research'']"
    by (simp add: orchestrator_frame research_only_state_def)
  from completed_append_only [OF two_calls] two_calls c0 c1 show ?thesis by simp
qed

text \<open>
  Claim C7. Every node of the workflow (the router, the five step executors, the
  completion assembler) returns a state with the same \<^verbatim>\<open>task_id\<close>, \<^verbatim>\<open>task_type\<close> and
  \<^verbatim>\<open>user_input\<close> as the state it received.
\<close>

theorem node_frame:
  "invoke w name s = Inr s' \<Longrightarrow>
   task_id s' = task_id s \<and> task_type s' = task_type s \<and> user_input s' = user_input s"
  by (drule invoke_cases)
     (auto simp: orchestrator_frame dest: research_frame content_frame links_frame context_frame
        translation_frame completion_frame)

theorem node_frame_witness:
  "invoke sample_world ''research'' (initial_state ''0'' ''dvar_torah'' ''q'') =
     Inr (research_only_state ''0'' ''dvar_torah'' ''q'') \<and>
   task_id (research_only_state ''0'' ''dvar_torah'' ''q'') = ''dvar_torah_0'' \<and>
   task_type (research_only_state ''0'' ''dvar_torah'' ''q'') = ''dvar_torah'' \<and>
   user_input (research_only_state ''0'' ''dvar_torah'' ''q'') = ''q''"
proof -
  note r = research_initial [of "''0''" "''dvar_torah''" "''q''"]
  have i: "task_id (initial_state ''0'' ''dvar_torah'' ''q'') = ''dvar_torah_0''"
    "task_type (initial_state ''0'' ''dvar_torah'' ''q'') = ''dvar_torah''"
    "user_input (initial_state ''0'' ''dvar_torah'' ''q'') = ''q''"
    by (simp_all add: initial_state_def)
  from node_frame [OF r] r i show ?thesis by simp
qed

text \<open>
  Claim C8. The claim is that on a state with only \<^verbatim>\<open>research\<close> completed the
  completion assembler gives the empty string for the content and the empty mapping for
  the context. On the state that the research step returns from the initial state of
  \<^verbatim>\<open>run_orchestrator\<close> it does not: the keys \<^verbatim>\<open>english_content\<close> and
  \<^verbatim>\<open>current_events_mapped\<close> are present with the value \<^verbatim>\<open>None\<close>, so the defaults of
  \<^verbatim>\<open>state.get\<close> are not used, and the assembled content and context are \<^verbatim>\<open>None\<close>. The
  sources, the empty list of links and the timestamp are as claimed, and nothing is
  raised.
\<close>

theorem completion_research_only:
  "completed_agents (research_only_state stamp tt input) = [''research''] \<and>
   assembled now (research_only_state stamp tt input) =
     \<lparr>out_task_type = tt, out_sources = [sicha_source], out_content = None,
      out_verified_links = [], out_context = JNull, out_generated_at = now\<rparr> \<and>
   final_output (projr (completion_node w (research_only_state stamp tt input))) =
     Some (json_dumps w
       \<lparr>out_task_type = tt, out_sources = [sicha_source], out_content = None,
        out_verified_links = [], out_context = JNull, out_generated_at = utcnow w 0\<rparr>)"
  by (simp add: assembled_def completion_node_def research_only_state_def initial_state_def)


text \<open>
  Claim C10. On any state, and whatever the clock shows, \<^verbatim>\<open>link_verification_node\<close>
  returns; afterwards \<^verbatim>\<open>broken_links\<close> is empty, \<^verbatim>\<open>verified_links\<close> has one entry for
  each source that has a \<^verbatim>\<open>url\<close> key, with the URLs of these sources in their order,
  and the status of every entry is \<^verbatim>\<open>ACTIVE\<close>. No link is ever reported as broken.
\<close>

theorem link_verifier_all_active:
  "\<exists>s' links. link_verification_node w s = Inr s' \<and>
      broken_links s' = [] \<and>
      verified_links s' = Present links \<and>
      length links =
        length (filter (\<lambda>source. map_of source ''url'' \<noteq> None) (get_or (sources_found s) [])) \<and>
      map (\<lambda>e. map_of e ''url'') links =
        map (\<lambda>source. map_of source ''url'')
          (filter (\<lambda>source. map_of source ''url'' \<noteq> None) (get_or (sources_found s) [])) \<and>
      map (\<lambda>e. map_of e ''status'') links = replicate (length links) (Some ''ACTIVE'')"
proof -
  define urls where
    "urls = List.map_filter (\<lambda>source. map_of source ''url'') (get_or (sources_found s) [])"
  define links where "links = map (verified_link w) (enumerate 0 urls)"
  define s' where "s' = s\<lparr>verified_links := Present links, broken_links := [],
     messages := messages s @ [''[LINK VERIFICATION AGENT] Checking URLs...'',
             ''[LINK VERIFICATION] Verified '' @ str_nat (length urls) @ '' links''],
     completed_agents := completed_agents s @ [''links'']\<rparr>"
  have run: "link_verification_node w s = Inr s'"
    by (simp add: link_verification_node_def Let_def s'_def links_def urls_def)
  have b: "broken_links s' = []" and v: "verified_links s' = Present links"
    by (simp_all add: s'_def)
  have l: "length links =
      length (filter (\<lambda>source. map_of source ''url'' \<noteq> None) (get_or (sources_found s) []))"
    unfolding links_def urls_def by (simp only: length_map length_enumerate length_map_filter)
  have u: "map (\<lambda>e. map_of e ''url'') links =
        map (\<lambda>source. map_of source ''url'')
          (filter (\<lambda>source. map_of source ''url'' \<noteq> None) (get_or (sources_found s) []))"
    unfolding links_def urls_def by (rule map_filter_url)
  have a: "map (\<lambda>e. map_of e ''status'') links = replicate (length links) (Some ''ACTIVE'')"
    unfolding links_def by (simp only: map_status length_map)
  from run b v l u a show ?thesis by blast
qed

end
